theory Spec2Isabelle
  imports Main
begin

section \<open>The mock navigation client (src/API/mock.ts)\<close>

text \<open>
  The client keeps three module-level collections, \<open>mockGroups\<close>, \<open>mockSites\<close> and
  \<open>mockConfigs\<close>, and mutates them in place. Here they are the fields of a store that
  every operation takes and returns. JavaScript numbers are integers (\<open>int\<close>) or
  counters (\<open>nat\<close>); an optional property of an interface (\<open>id?\<close>, \<open>is_public?\<close>,
  \<open>created_at?\<close>, \<open>updated_at?\<close>) is an \<open>option\<close>, \<open>None\<close> being \<open>undefined\<close>.
  An operation reads the clock (\<open>new Date().toISOString()\<close>) for every timestamp it
  writes; all the readings of one call are the parameter \<open>now\<close> of the operation. The
  artificial network delays and the \<open>localStorage\<close> mirror (written by helpers that
  catch their own exceptions) are left out.
\<close>

subsection \<open>Entities\<close>

type_synonym timestamp = string

text \<open>The interfaces \<open>Group\<close> and \<open>Site\<close>; the suffixes keep the two records' fields apart.\<close>

record Group =
  id_g :: "int option"
  name_g :: string
  order_num_g :: int
  is_public_g :: "int option"
  created_at_g :: "timestamp option"
  updated_at_g :: "timestamp option"

record Site =
  id_s :: "int option"
  group_id :: int
  name_s :: string
  url :: string
  icon :: string
  description :: string
  notes_s :: string
  order_num_s :: int
  is_public_s :: "int option"
  created_at_s :: "timestamp option"
  updated_at_s :: "timestamp option"

text \<open>
  \<open>Partial<Group>\<close> and \<open>Partial<Site>\<close>: every property may be absent (\<open>None\<close>) or
  supplied with a value.
\<close>

record GroupPartial =
  p_id_g :: "int option"
  p_name_g :: "string option"
  p_order_num_g :: "int option"
  p_is_public_g :: "int option"
  p_created_at_g :: "timestamp option"
  p_updated_at_g :: "timestamp option"

record SitePartial =
  p_id_s :: "int option"
  p_group_id :: "int option"
  p_name_s :: "string option"
  p_url :: "string option"
  p_icon :: "string option"
  p_description :: "string option"
  p_notes :: "string option"
  p_order_num_s :: "int option"
  p_is_public_s :: "int option"
  p_created_at_s :: "timestamp option"
  p_updated_at_s :: "timestamp option"

text \<open>An entry \<open>{ id, order_num }\<close> of a batch reorder.\<close>

record OrderEntry =
  id_o :: int
  order_num_o :: int

text \<open>\<open>GroupWithSites\<close>: the group's own properties together with its \<open>sites\<close>.\<close>

record GroupWithSites =
  group_of :: Group
  sites_of :: "Site list"

record store =
  mockGroups :: "Group list"
  mockSites :: "Site list"
  mockConfigs :: "string \<rightharpoonup> string"

subsection \<open>JavaScript helpers\<close>

text \<open>\<open>Array.prototype.findIndex\<close>: the first index whose element passes; \<open>-1\<close> is \<open>None\<close>.\<close>

fun findIndex :: "('a \<Rightarrow> bool) \<Rightarrow> 'a list \<Rightarrow> nat option" where
  "findIndex P [] = None"
| "findIndex P (x # xs) =
     (if P x then Some 0 else map_option Suc (findIndex P xs))"

text \<open>\<open>xs[i]\<close>: \<open>undefined\<close> (\<open>None\<close>) out of range.\<close>

definition at_index :: "'a list \<Rightarrow> nat \<Rightarrow> 'a option" where
  "at_index xs i = (if i < length xs then Some (xs ! i) else None)"

text \<open>Truthiness of a number that may be \<open>undefined\<close>: neither \<open>undefined\<close> nor \<open>0\<close>.\<close>

definition truthy :: "int option \<Rightarrow> bool" where
  "truthy v = (case v of None \<Rightarrow> False | Some n \<Rightarrow> n \<noteq> 0)"

text \<open>\<open>x || 0\<close> on such a number.\<close>

definition or_zero :: "int option \<Rightarrow> int" where
  "or_zero v = (case v of None \<Rightarrow> 0 | Some n \<Rightarrow> n)"

text \<open>\<open>Math.max(0, ...ids) + 1\<close>.\<close>

definition next_id :: "int list \<Rightarrow> int" where
  "next_id ids = foldl max 0 ids + 1"

text \<open>\<open>{ ...a, ...b }\<close> on one property: the value of \<open>b\<close> when \<open>b\<close> has the property.\<close>

definition spread :: "'a \<Rightarrow> 'a option \<Rightarrow> 'a" where
  "spread a b = (case b of None \<Rightarrow> a | Some v \<Rightarrow> v)"

definition spread_opt :: "'a option \<Rightarrow> 'a option \<Rightarrow> 'a option" where
  "spread_opt a b = (case b of None \<Rightarrow> a | Some v \<Rightarrow> Some v)"

subsection \<open>Reading groups and sites\<close>

definition is_public_group :: "Group \<Rightarrow> bool" where
  "is_public_group g = (is_public_g g = Some 1)"

definition getGroups :: "bool \<Rightarrow> store \<Rightarrow> Group list" where
  "getGroups isAuthenticated st =
     (if \<not> isAuthenticated then filter is_public_group (mockGroups st)
      else mockGroups st)"

definition getGroupsWithSites :: "bool \<Rightarrow> store \<Rightarrow> GroupWithSites list" where
  "getGroupsWithSites isAuthenticated st =
     (let (groups1, sites1) =
            (if \<not> isAuthenticated
             then (let groups0 = filter is_public_group (mockGroups st);
                       publicGroupIds = map id_g groups0
                   in (groups0,
                       filter (\<lambda>site. is_public_s site = Some 1
                                 \<and> List.member publicGroupIds (Some (group_id site)))
                         (mockSites st)))
             else (mockGroups st, mockSites st))
      in map (\<lambda>grp. \<lparr>group_of = grp,
                        sites_of = filter (\<lambda>site. Some (group_id site) = id_g grp) sites1\<rparr>)
           groups1)"

definition getSites :: "bool \<Rightarrow> int option \<Rightarrow> store \<Rightarrow> Site list" where
  "getSites isAuthenticated groupId st =
     (let sites0 = mockSites st;
          sites1 = (if \<not> isAuthenticated
                    then (let publicGroupIds = map id_g (filter is_public_group (mockGroups st))
                          in filter (\<lambda>site. is_public_s site = Some 1
                                        \<and> List.member publicGroupIds (Some (group_id site))) sites0)
                    else sites0)
      in if truthy groupId then filter (\<lambda>site. Some (group_id site) = groupId) sites1
         else sites1)"

subsection \<open>Creating, updating and deleting\<close>


definition patch_group :: "timestamp \<Rightarrow> Group \<Rightarrow> GroupPartial \<Rightarrow> Group" where
  "patch_group now existing grp =
     \<lparr>id_g = spread_opt (id_g existing) (p_id_g grp),
      name_g = spread (name_g existing) (p_name_g grp),
      order_num_g = spread (order_num_g existing) (p_order_num_g grp),
      is_public_g = spread_opt (is_public_g existing) (p_is_public_g grp),
      created_at_g = spread_opt (created_at_g existing) (p_created_at_g grp),
      updated_at_g = Some now\<rparr>"

definition updateGroup :: "timestamp \<Rightarrow> int \<Rightarrow> GroupPartial \<Rightarrow> store \<Rightarrow> Group option \<times> store" where
  "updateGroup now i grp st =
     (case findIndex (\<lambda>g. id_g g = Some i) (mockGroups st) of
        None \<Rightarrow> (None, st)
      | Some index \<Rightarrow>
          (case at_index (mockGroups st) index of
             None \<Rightarrow> (None, st)
           | Some existing \<Rightarrow>
               (let updated = patch_group now existing grp
                in (Some updated, st\<lparr>mockGroups := (mockGroups st)[index := updated]\<rparr>))))"




definition patch_site :: "timestamp \<Rightarrow> Site \<Rightarrow> SitePartial \<Rightarrow> Site" where
  "patch_site now existing site =
     \<lparr>id_s = spread_opt (id_s existing) (p_id_s site),
      group_id = spread (group_id existing) (p_group_id site),
      name_s = spread (name_s existing) (p_name_s site),
      url = spread (url existing) (p_url site),
      icon = spread (icon existing) (p_icon site),
      description = spread (description existing) (p_description site),
      notes_s = spread (notes_s existing) (p_notes site),
      order_num_s = spread (order_num_s existing) (p_order_num_s site),
      is_public_s = spread_opt (is_public_s existing) (p_is_public_s site),
      created_at_s = spread_opt (created_at_s existing) (p_created_at_s site),
      updated_at_s = Some now\<rparr>"

definition updateSite :: "timestamp \<Rightarrow> int \<Rightarrow> SitePartial \<Rightarrow> store \<Rightarrow> Site option \<times> store" where
  "updateSite now i site st =
     (case findIndex (\<lambda>s. id_s s = Some i) (mockSites st) of
        None \<Rightarrow> (None, st)
      | Some index \<Rightarrow>
          (case at_index (mockSites st) index of
             None \<Rightarrow> (None, st)
           | Some existing \<Rightarrow>
               (let updated = patch_site now existing site
                in (Some updated, st\<lparr>mockSites := (mockSites st)[index := updated]\<rparr>))))"

subsection \<open>Batch reordering\<close>

definition reorder_group :: "Group list \<Rightarrow> OrderEntry \<Rightarrow> Group list" where
  "reorder_group groups ord =
     (case findIndex (\<lambda>g. id_g g = Some (id_o ord)) groups of
        None \<Rightarrow> groups
      | Some index \<Rightarrow>
          (case at_index groups index of
             None \<Rightarrow> groups
           | Some grp \<Rightarrow> groups[index := grp\<lparr>order_num_g := order_num_o ord\<rparr>]))"

definition updateGroupOrder :: "OrderEntry list \<Rightarrow> store \<Rightarrow> bool \<times> store" where
  "updateGroupOrder groupOrders st =
     (True, st\<lparr>mockGroups := foldl reorder_group (mockGroups st) groupOrders\<rparr>)"

definition reorder_site :: "Site list \<Rightarrow> OrderEntry \<Rightarrow> Site list" where
  "reorder_site sites ord =
     (case findIndex (\<lambda>s. id_s s = Some (id_o ord)) sites of
        None \<Rightarrow> sites
      | Some index \<Rightarrow>
          (case at_index sites index of
             None \<Rightarrow> sites
           | Some site \<Rightarrow> sites[index := site\<lparr>order_num_s := order_num_o ord\<rparr>]))"

definition updateSiteOrder :: "OrderEntry list \<Rightarrow> store \<Rightarrow> bool \<times> store" where
  "updateSiteOrder siteOrders st =
     (True, st\<lparr>mockSites := foldl reorder_site (mockSites st) siteOrders\<rparr>)"

subsection \<open>Configuration\<close>

text \<open>
  \<open>mockConfigs\<close> is a plain object used as a \<open>Record<string, string>\<close>. The store keeps
  its own properties, a map from keys to string values. Reading \<open>mockConfigs[key]\<close> and
  testing \<open>key in mockConfigs\<close> also see the properties that every plain object
  inherits from \<open>Object.prototype\<close>; their names are those of ECMAScript (20.1.3 and
  B.2.2). The inherited values are functions, and the prototype object itself for
  \<open>__proto__\<close>: all of them truthy, none of them a string.
\<close>

definition object_prototype_names :: "string list" where
  "object_prototype_names =
     [''constructor'', ''hasOwnProperty'', ''isPrototypeOf'', ''propertyIsEnumerable'',
      ''toLocaleString'', ''toString'', ''valueOf'', ''__proto__'',
      ''__defineGetter__'', ''__defineSetter__'', ''__lookupGetter__'', ''__lookupSetter__'']"

text \<open>
  What a read of \<open>mockConfigs[key]\<close> gives when it is not \<open>undefined\<close>: a stored string,
  or the member of \<open>Object.prototype\<close> of that name.
\<close>

datatype config_read = Stored string | Inherited string

definition read_config :: "(string \<rightharpoonup> string) \<Rightarrow> string \<Rightarrow> config_read option" where
  "read_config configs key =
     (case configs key of
        Some v \<Rightarrow> Some (Stored v)
      | None \<Rightarrow> if List.member object_prototype_names key then Some (Inherited key) else None)"

text \<open>
  \<open>mockConfigs[key] = value\<close> with a string value. It writes the object's own property,
  except for the key \<open>__proto__\<close> when the object has no own property of that name: the
  assignment then reaches the inherited setter, which ignores a string.
\<close>

definition assign_config :: "(string \<rightharpoonup> string) \<Rightarrow> string \<Rightarrow> string \<Rightarrow> (string \<rightharpoonup> string)" where
  "assign_config configs key v =
     (if key = ''__proto__'' \<and> configs key = None then configs else configs(key \<mapsto> v))"

text \<open>
  \<open>mockConfigs[key] || null\<close>: the value read unless it is falsy, and the only falsy
  values a read can give are \<open>undefined\<close> and the empty string.
\<close>

definition getConfig :: "string \<Rightarrow> store \<Rightarrow> config_read option" where
  "getConfig key st =
     (case read_config (mockConfigs st) key of
        None \<Rightarrow> None
      | Some (Stored v) \<Rightarrow> if v = [] then None else Some (Stored v)
      | Some (Inherited n) \<Rightarrow> Some (Inherited n))"

definition setConfig :: "string \<Rightarrow> string \<Rightarrow> store \<Rightarrow> bool \<times> store" where
  "setConfig key v st = (True, st\<lparr>mockConfigs := assign_config (mockConfigs st) key v\<rparr>)"

text \<open>
  \<open>key in mockConfigs\<close> holds for own and for inherited properties; \<open>delete\<close> removes
  the own property if there is one.
\<close>

definition deleteConfig :: "string \<Rightarrow> store \<Rightarrow> bool \<times> store" where
  "deleteConfig key st =
     (if read_config (mockConfigs st) key \<noteq> None
      then (True, st\<lparr>mockConfigs := (mockConfigs st)(key := None)\<rparr>)
      else (False, st))"

subsection \<open>Export and import\<close>

text \<open>
  \<open>ExportData\<close>, as \<open>importData\<close> may receive it at run time: \<open>groups\<close>, \<open>sites\<close> and
  \<open>configs\<close> are \<open>None\<close> when a structurally malformed snapshot lacks the property
  (reading it gives \<open>undefined\<close>). The groups and sites a snapshot lists are records of
  the two interfaces. The entries of \<open>configs\<close> are in the order \<open>Object.entries\<close>
  lists them.
\<close>

record ExportData =
  groups :: "Group list option"
  sites :: "Site list option"
  configs :: "(string \<times> string) list option"
  version :: string
  exportDate :: timestamp

text \<open>The statistics \<open>stats.groups.*\<close> and \<open>stats.sites.*\<close>.\<close>

record ImportStats =
  groups_total :: nat
  groups_created :: nat
  groups_merged :: nat
  sites_total :: nat
  sites_created :: nat
  sites_updated :: nat
  sites_skipped :: nat

datatype ImportResult = Success ImportStats | Failure string

text \<open>
  What a \<open>throw\<close> carries: an \<open>Error\<close> object with its message, or any other value.
  The messages of the \<open>TypeError\<close>s below are the engine's wording, which the source
  passes through unchanged.
\<close>

datatype thrown = ErrorObject string | OtherValue

definition read_of_undefined :: "string \<Rightarrow> thrown" where
  "read_of_undefined prop =
     ErrorObject (''Cannot read properties of undefined (reading '' @ [CHR 0x27] @ prop
                  @ [CHR 0x27] @ '')'')"

definition entries_of_undefined :: thrown where
  "entries_of_undefined = ErrorObject ''Cannot convert undefined or null to object''"

text \<open>
  \<open>error instanceof Error ? error.message : ...\<close>, the fallback message being given by
  its UTF-8 bytes.
\<close>

definition unknown_error :: string where
  "unknown_error =
     [CHR 0xE6, CHR 0x9C, CHR 0xAA, CHR 0xE7, CHR 0x9F, CHR 0xA5,
      CHR 0xE9, CHR 0x94, CHR 0x99, CHR 0xE8, CHR 0xAF, CHR 0xAF]"

definition error_message :: "thrown \<Rightarrow> string" where
  "error_message error =
     (case error of ErrorObject message \<Rightarrow> message | OtherValue \<Rightarrow> unknown_error)"

text \<open>
  One turn of the loop over \<open>data.groups\<close>. The loop state is the live groups, the
  \<open>groupMap\<close> from the snapshot's ids to live ids, and the statistics.
\<close>

definition importGroup ::
  "timestamp \<Rightarrow> Group list \<times> (int \<rightharpoonup> int) \<times> ImportStats \<Rightarrow> Group
     \<Rightarrow> Group list \<times> (int \<rightharpoonup> int) \<times> ImportStats" where
  "importGroup now state importGrp =
     (case state of (groups0, groupMap, stats) \<Rightarrow>
       (case findIndex (\<lambda>g. name_g g = name_g importGrp) groups0 of
          Some existingGroupIndex \<Rightarrow>
            (let existingGroup = at_index groups0 existingGroupIndex;
                 groupMap' =
                   (if truthy (id_g importGrp) \<and> existingGroup \<noteq> None
                       \<and> truthy (id_g (the existingGroup))
                    then groupMap(the (id_g importGrp) \<mapsto> the (id_g (the existingGroup)))
                    else groupMap)
             in (groups0, groupMap', stats\<lparr>groups_merged := groups_merged stats + 1\<rparr>))
        | None \<Rightarrow>
            (let newId = next_id (map (\<lambda>g. or_zero (id_g g)) groups0);
                 newGroup = importGrp\<lparr>id_g := Some newId,
                                       created_at_g := Some now,
                                       updated_at_g := Some now\<rparr>;
                 groupMap' =
                   (if truthy (id_g importGrp) then groupMap(the (id_g importGrp) \<mapsto> newId)
                    else groupMap)
             in (groups0 @ [newGroup], groupMap',
                 stats\<lparr>groups_created := groups_created stats + 1\<rparr>))))"

text \<open>One turn of the loop over \<open>data.sites\<close>, with the finished \<open>groupMap\<close>.\<close>

definition importSite ::
  "timestamp \<Rightarrow> (int \<rightharpoonup> int) \<Rightarrow> Site list \<times> ImportStats \<Rightarrow> Site
     \<Rightarrow> Site list \<times> ImportStats" where
  "importSite now groupMap state importSte =
     (case state of (sites0, stats) \<Rightarrow>
       (let newGroupId = groupMap (group_id importSte)
        in if \<not> truthy newGroupId
           then (sites0, stats\<lparr>sites_skipped := sites_skipped stats + 1\<rparr>)
           else
             (case findIndex (\<lambda>s. group_id s = the newGroupId \<and> url s = url importSte) sites0 of
                Some existingSiteIndex \<Rightarrow>
                  (case at_index sites0 existingSiteIndex of
                     Some existingSite \<Rightarrow>
                       (sites0[existingSiteIndex :=
                          existingSite\<lparr>name_s := name_s importSte,
                                         icon := icon importSte,
                                         description := description importSte,
                                         notes_s := notes_s importSte,
                                         updated_at_s := Some now\<rparr>],
                        stats\<lparr>sites_updated := sites_updated stats + 1\<rparr>)
                   | None \<Rightarrow> (sites0, stats))
              | None \<Rightarrow>
                  (let newId = next_id (map (\<lambda>s. or_zero (id_s s)) sites0);
                       newSite = importSte\<lparr>id_s := Some newId,
                                            group_id := the newGroupId,
                                            created_at_s := Some now,
                                            updated_at_s := Some now\<rparr>
                   in (sites0 @ [newSite],
                       stats\<lparr>sites_created := sites_created stats + 1\<rparr>)))))"

text \<open>
  The body of the \<open>try\<close> block. It returns the statistics or the value thrown,
  together with the store as the body left it: what the loops wrote before a throw
  stays written.
\<close>

definition importData_try :: "timestamp \<Rightarrow> ExportData \<Rightarrow> store \<Rightarrow> (thrown + ImportStats) \<times> store" where
  "importData_try now data st =
     (case groups data of
        None \<Rightarrow> (Inl (read_of_undefined ''length''), st)
      | Some dataGroups \<Rightarrow>
     (case sites data of
        None \<Rightarrow> (Inl (read_of_undefined ''length''), st)
      | Some dataSites \<Rightarrow>
          (let stats0 = \<lparr>groups_total = length dataGroups, groups_created = 0, groups_merged = 0,
                         sites_total = length dataSites, sites_created = 0, sites_updated = 0,
                         sites_skipped = 0\<rparr>;
               (groups1, groupMap, stats1) =
                  foldl (importGroup now) (mockGroups st, Map.empty, stats0) dataGroups;
               (sites1, stats2) =
                  foldl (importSite now groupMap) (mockSites st, stats1) dataSites;
               st1 = st\<lparr>mockGroups := groups1, mockSites := sites1\<rparr>
           in (case configs data of
                 None \<Rightarrow> (Inl entries_of_undefined, st1)
               | Some entries \<Rightarrow>
                   (Inr stats2,
                    st1\<lparr>mockConfigs :=
                          foldl (\<lambda>m (key, v). assign_config m key v) (mockConfigs st1) entries\<rparr>)))))"

text \<open>
  \<open>importData\<close>: the \<open>try\<close> block and its \<open>catch\<close>. The result is a sum like the
  body's, so that a throw past the caller would be an \<open>Inl\<close>.
\<close>

definition importData :: "timestamp \<Rightarrow> ExportData \<Rightarrow> store \<Rightarrow> (thrown + ImportResult) \<times> store" where
  "importData now data st =
     (case importData_try now data st of
        (Inr stats, st') \<Rightarrow> (Inr (Success stats), st')
      | (Inl error, st') \<Rightarrow> (Inr (Failure (error_message error)), st'))"

subsection \<open>Import of a snapshot that need not have the shape of ExportData\<close>











section \<open>The properties the specification names\<close>

subsection \<open>Visibility\<close>

text \<open>
  The visibility filter as the specification words it: without authentication a group
  passes iff it is public, and a site passes iff it is public and its \<open>group_id\<close>
  refers to a group that passes.
\<close>

definition visible_group :: "Group \<Rightarrow> bool" where
  "visible_group g = (is_public_g g = Some 1)"

definition visible_site :: "store \<Rightarrow> Site \<Rightarrow> bool" where
  "visible_site st s =
     (is_public_s s = Some 1
      \<and> (\<exists>g\<in>set (mockGroups st). is_public_g g = Some 1 \<and> id_g g = Some (group_id s)))"

subsection \<open>Statistics\<close>

text \<open>The counters that the statistics must conserve.\<close>

definition groups_done :: "ImportStats \<Rightarrow> nat" where
  "groups_done s = groups_created s + groups_merged s"

definition sites_done :: "ImportStats \<Rightarrow> nat" where
  "sites_done s = sites_created s + sites_updated s + sites_skipped s"

text \<open>
  The \<open>groupMap\<close> that \<open>importData\<close> has built when its loop over the groups ends.
\<close>

definition import_groupMap :: "timestamp \<Rightarrow> ExportData \<Rightarrow> store \<Rightarrow> (int \<rightharpoonup> int)" where
  "import_groupMap now data st =
     (case (groups data, sites data) of
        (Some dataGroups, Some dataSites) \<Rightarrow>
          fst (snd (foldl (importGroup now)
            (mockGroups st, Map.empty,
             \<lparr>groups_total = length dataGroups, groups_created = 0, groups_merged = 0,
              sites_total = length dataSites, sites_created = 0, sites_updated = 0,
              sites_skipped = 0\<rparr>) dataGroups))
      | _ \<Rightarrow> Map.empty)"

subsection \<open>Snapshots that import\<close>





subsection \<open>Invariants of the store\<close>

text \<open>
  The identity invariant: the names of the live groups are pairwise distinct, and so
  are the pairs of \<open>group_id\<close> and \<open>url\<close> of the live sites.
\<close>

definition site_key :: "Site \<Rightarrow> int \<times> string" where
  "site_key s = (group_id s, url s)"




text \<open>
  Two facts about a running import. The \<open>groupMap\<close> sends every id it knows to the
  non-zero id of a live group; and every site of \<open>S'\<close> is the site of \<open>S\<close> at its index
  or refers to a group of \<open>gs\<close>.
\<close>

definition groupMap_live :: "Group list \<Rightarrow> (int \<rightharpoonup> int) \<Rightarrow> bool" where
  "groupMap_live gs m = (\<forall>k v. m k = Some v \<longrightarrow> v \<noteq> 0 \<and> (\<exists>g\<in>set gs. id_g g = Some v))"


subsection \<open>Concrete stores and snapshots\<close>

text \<open>
  The group \<open>Dev\<close> and the site \<open>X\<close> of the specification's scenarios, the empty store
  and the snapshot of scenario A, and variations of them.
\<close>

definition dev_group :: Group where
  "dev_group = \<lparr>id_g = Some 1, name_g = ''Dev'', order_num_g = 0, is_public_g = Some 1,
                 created_at_g = None, updated_at_g = None\<rparr>"


definition x_site :: Site where
  "x_site = \<lparr>id_s = Some 1, group_id = 1, name_s = ''X'', url = ''http://x'', icon = [],
              description = [], notes_s = [], order_num_s = 0, is_public_s = Some 1,
              created_at_s = None, updated_at_s = None\<rparr>"


definition empty_store :: store where
  "empty_store = \<lparr>mockGroups = [], mockSites = [], mockConfigs = Map.empty\<rparr>"

definition dev_store :: store where
  "dev_store = \<lparr>mockGroups = [dev_group\<lparr>updated_at_g := Some ''t0''\<rparr>],
                 mockSites = [x_site\<lparr>updated_at_s := Some ''t0''\<rparr>],
                 mockConfigs = Map.empty\<rparr>"



definition snapshot_A :: ExportData where
  "snapshot_A = \<lparr>groups = Some [dev_group], sites = Some [x_site], configs = Some [],
                  version = ''1.0'', exportDate = ''2025-01-01''\<rparr>"

definition zero_stats :: ImportStats where
  "zero_stats = \<lparr>groups_total = 0, groups_created = 0, groups_merged = 0,
                  sites_total = 0, sites_created = 0, sites_updated = 0, sites_skipped = 0\<rparr>"

text \<open>Partial updates that supply nothing.\<close>

definition no_group_partial :: GroupPartial where
  "no_group_partial = \<lparr>p_id_g = None, p_name_g = None, p_order_num_g = None,
                        p_is_public_g = None, p_created_at_g = None, p_updated_at_g = None\<rparr>"

definition no_site_partial :: SitePartial where
  "no_site_partial = \<lparr>p_id_s = None, p_group_id = None, p_name_s = None, p_url = None,
                       p_icon = None, p_description = None, p_notes = None,
                       p_order_num_s = None, p_is_public_s = None, p_created_at_s = None,
                       p_updated_at_s = None\<rparr>"

section \<open>Auxiliary facts\<close>

subsection \<open>Array helpers\<close>

lemma findIndex_Some:
  "findIndex P xs = Some i \<Longrightarrow> i < length xs \<and> P (xs ! i) \<and> (\<forall>j<i. \<not> P (xs ! j))"
proof (induction xs arbitrary: i)
  case Nil
  then show ?case by simp
next
  case (Cons x xs)
  show ?case
  proof (cases "P x")
    case True
    with Cons.prems show ?thesis by simp
  next
    case False
    with Cons.prems obtain k where k: "findIndex P xs = Some k" "i = Suc k"
      by auto
    from Cons.IH [OF k(1)] False k(2) show ?thesis
      by (auto simp: nth_Cons split: nat.splits)
  qed
qed

lemma findIndex_None: "(findIndex P xs = None) = (\<forall>x\<in>set xs. \<not> P x)"
  by (induction xs) auto

lemma findIndex_append_Some:
  "findIndex P xs = Some i \<Longrightarrow> findIndex P (xs @ ys) = Some i"
  by (induction xs arbitrary: i) (auto split: if_splits)

lemma findIndex_append_hit:
  "findIndex P xs = None \<Longrightarrow> P y \<Longrightarrow> findIndex P (xs @ y # ys) = Some (length xs)"
  by (induction xs) (auto split: if_splits)

lemma at_index_findIndex:
  "findIndex P xs = Some i \<Longrightarrow> at_index xs i = Some (xs ! i)"
  by (simp add: at_index_def findIndex_Some)

subsection \<open>Visibility\<close>

lemma member_public_ids:
  "List.member (map id_g (filter is_public_group gs)) (Some k)
     = (\<exists>g\<in>set gs. is_public_g g = Some 1 \<and> id_g g = Some k)"
proof
  assume "List.member (map id_g (filter is_public_group gs)) (Some k)"
  then obtain g where "g \<in> set gs" "is_public_group g" "id_g g = Some k"
    by auto
  then show "\<exists>g\<in>set gs. is_public_g g = Some 1 \<and> id_g g = Some k"
    unfolding is_public_group_def by blast
next
  assume "\<exists>g\<in>set gs. is_public_g g = Some 1 \<and> id_g g = Some k"
  then obtain g where g: "g \<in> set gs" "is_public_group g" "id_g g = Some k"
    unfolding is_public_group_def by blast
  then have "Some k \<in> id_g ` set (filter is_public_group gs)"
    by force
  then show "List.member (map id_g (filter is_public_group gs)) (Some k)"
    by simp
qed

lemma getSites_guest_all:
  "getSites False None st = filter (visible_site st) (mockSites st)"
proof -
  have "(\<lambda>site. is_public_s site = Some 1
            \<and> List.member (map id_g (filter is_public_group (mockGroups st)))
                 (Some (group_id site)))
        = visible_site st"
    unfolding member_public_ids visible_site_def ..
  then show ?thesis
    by (simp add: getSites_def truthy_def)
qed

lemma getSites_groupId:
  "getSites auth (Some k) st =
     (if k = 0 then getSites auth None st
      else filter (\<lambda>s. group_id s = k) (getSites auth None st))"
  by (simp add: getSites_def truthy_def Let_def)

lemma getGroups_guest: "getGroups False st = filter visible_group (mockGroups st)"
  by (simp add: getGroups_def is_public_group_def visible_group_def cong: filter_cong)

lemma getGroupsWithSites_groups:
  "map group_of (getGroupsWithSites auth st) = getGroups auth st"
  by (simp add: getGroupsWithSites_def getGroups_def Let_def comp_def)

lemma getGroupsWithSites_sites:
  "map sites_of (getGroupsWithSites auth st) =
     map (\<lambda>g. filter (\<lambda>s. Some (group_id s) = id_g g) (getSites auth None st)) (getGroups auth st)"
  by (simp add: getGroupsWithSites_def getGroups_def getSites_def truthy_def Let_def comp_def)

lemma getGroupsWithSites_guest_union:
  "(\<Union>e\<in>set (getGroupsWithSites False st). set (sites_of e)) = set (getSites False None st)"
proof -
  have "(\<Union>e\<in>set (getGroupsWithSites False st). set (sites_of e))
          = \<Union> (set (map (set \<circ> sites_of) (getGroupsWithSites False st)))"
    by simp
  also have "map (set \<circ> sites_of) (getGroupsWithSites False st)
          = map set (map sites_of (getGroupsWithSites False st))"
    by simp
  finally have "(\<Union>e\<in>set (getGroupsWithSites False st). set (sites_of e))
          = (\<Union>g\<in>set (getGroups False st).
                {s \<in> set (getSites False None st). Some (group_id s) = id_g g})"
    by (simp add: getGroupsWithSites_sites del: map_map)
  also have "\<dots> = set (getSites False None st)"
    by (auto simp: getSites_guest_all getGroups_guest visible_site_def visible_group_def)
  finally show ?thesis .
qed

subsection \<open>Statistics of the import loops\<close>

lemma importGroup_stats:
  assumes "importGroup now (G, m, s) ig = (G', m', s')"
  shows "groups_done s' = Suc (groups_done s) \<and> sites_done s' = sites_done s
         \<and> groups_total s' = groups_total s \<and> sites_total s' = sites_total s
         \<and> sites_created s' = sites_created s \<and> sites_updated s' = sites_updated s
         \<and> sites_skipped s' = sites_skipped s"
  using assms
  by (auto simp: importGroup_def Let_def groups_done_def sites_done_def split: option.splits)

lemma importGroups_stats:
  "foldl (importGroup now) (G, m, s) gs = (G', m', s') \<Longrightarrow>
     groups_done s' = groups_done s + length gs \<and> sites_done s' = sites_done s
     \<and> groups_total s' = groups_total s \<and> sites_total s' = sites_total s
     \<and> sites_created s' = sites_created s \<and> sites_updated s' = sites_updated s
     \<and> sites_skipped s' = sites_skipped s"
proof (induction gs arbitrary: G m s)
  case Nil
  then show ?case by simp
next
  case (Cons g gs)
  obtain G1 m1 s1 where step: "importGroup now (G, m, s) g = (G1, m1, s1)"
    by (cases "importGroup now (G, m, s) g") auto
  with Cons.prems have "foldl (importGroup now) (G1, m1, s1) gs = (G', m', s')"
    by simp
  from Cons.IH [OF this] importGroup_stats [OF step] show ?case
    by simp
qed

lemma importSite_stats:
  assumes "importSite now m (S, s) is = (S', s')"
  shows "sites_done s' = Suc (sites_done s) \<and> groups_done s' = groups_done s
         \<and> groups_total s' = groups_total s \<and> sites_total s' = sites_total s
         \<and> groups_created s' = groups_created s \<and> groups_merged s' = groups_merged s"
  using assms
  by (auto simp: importSite_def Let_def groups_done_def sites_done_def at_index_findIndex
      split: option.splits if_splits)

lemma importSites_stats:
  "foldl (importSite now m) (S, s) ss = (S', s') \<Longrightarrow>
     sites_done s' = sites_done s + length ss \<and> groups_done s' = groups_done s
     \<and> groups_total s' = groups_total s \<and> sites_total s' = sites_total s
     \<and> groups_created s' = groups_created s \<and> groups_merged s' = groups_merged s"
proof (induction ss arbitrary: S s)
  case Nil
  then show ?case by simp
next
  case (Cons x ss)
  obtain S1 s1 where step: "importSite now m (S, s) x = (S1, s1)"
    by (cases "importSite now m (S, s) x") auto
  with Cons.prems have "foldl (importSite now m) (S1, s1) ss = (S', s')"
    by simp
  from Cons.IH [OF this] importSite_stats [OF step] show ?case
    by simp
qed

lemma importData_try_Inr:
  assumes "importData_try now d st = (Inr stats, st')"
  obtains gs ss cs G m s1 S where
    "groups d = Some gs" "sites d = Some ss" "configs d = Some cs"
    "foldl (importGroup now)
       (mockGroups st, Map.empty,
        \<lparr>groups_total = length gs, groups_created = 0, groups_merged = 0,
         sites_total = length ss, sites_created = 0, sites_updated = 0, sites_skipped = 0\<rparr>) gs
     = (G, m, s1)"
    "foldl (importSite now m) (mockSites st, s1) ss = (S, stats)"
    "mockGroups st' = G" "mockSites st' = S"
  using assms
  by (auto simp: importData_try_def Let_def split: option.splits prod.splits)

lemma importData_Success:
  "(importData now d st = (Inr (Success stats), st')) = (importData_try now d st = (Inr stats, st'))"
  by (auto simp: importData_def split: prod.splits sum.splits)

subsection \<open>Updates and reordering\<close>

lemma map_list_update_same:
  "i < length xs \<Longrightarrow> f y = f (xs ! i) \<Longrightarrow> map f (xs[i := y]) = map f xs"
  by (simp add: map_update list_update_same_conv)

lemma updateGroup_ids:
  assumes "p_id_g p = None"
  shows "map id_g (mockGroups (snd (updateGroup now i p st))) = map id_g (mockGroups st)"
proof (cases "findIndex (\<lambda>g. id_g g = Some i) (mockGroups st)")
  case None
  then show ?thesis by (simp add: updateGroup_def)
next
  case (Some k)
  then have k: "k < length (mockGroups st)"
    using findIndex_Some by fastforce
  have "id_g (patch_group now (mockGroups st ! k) p) = id_g (mockGroups st ! k)"
    using assms by (simp add: patch_group_def spread_opt_def)
  with Some k show ?thesis
    by (simp add: updateGroup_def at_index_def map_list_update_same Let_def)
qed

lemma updateSite_ids:
  assumes "p_id_s p = None"
  shows "map id_s (mockSites (snd (updateSite now i p st))) = map id_s (mockSites st)"
proof (cases "findIndex (\<lambda>s. id_s s = Some i) (mockSites st)")
  case None
  then show ?thesis by (simp add: updateSite_def)
next
  case (Some k)
  then have k: "k < length (mockSites st)"
    using findIndex_Some by fastforce
  have "id_s (patch_site now (mockSites st ! k) p) = id_s (mockSites st ! k)"
    using assms by (simp add: patch_site_def spread_opt_def)
  with Some k show ?thesis
    by (simp add: updateSite_def at_index_def map_list_update_same Let_def)
qed

lemma updateGroup_returned_id:
  assumes "updateGroup now i p st = (Some g, st')"
  shows "id_g g = spread_opt (Some i) (p_id_g p)"
proof -
  from assms obtain k where k: "findIndex (\<lambda>g. id_g g = Some i) (mockGroups st) = Some k"
    by (auto simp: updateGroup_def split: option.splits)
  from findIndex_Some [OF this]
  have "k < length (mockGroups st)" "id_g (mockGroups st ! k) = Some i"
    by simp_all
  with assms k show ?thesis
    by (auto simp: updateGroup_def at_index_def patch_group_def Let_def)
qed

lemma updateSite_returned_id:
  assumes "updateSite now i p st = (Some s, st')"
  shows "id_s s = spread_opt (Some i) (p_id_s p)"
proof -
  from assms obtain k where k: "findIndex (\<lambda>s. id_s s = Some i) (mockSites st) = Some k"
    by (auto simp: updateSite_def split: option.splits)
  from findIndex_Some [OF this]
  have "k < length (mockSites st)" "id_s (mockSites st ! k) = Some i"
    by simp_all
  with assms k show ?thesis
    by (auto simp: updateSite_def at_index_def patch_site_def Let_def)
qed

lemma reorder_group_frame:
  "map (\<lambda>g. g\<lparr>order_num_g := 0\<rparr>) (reorder_group gs ord) = map (\<lambda>g. g\<lparr>order_num_g := 0\<rparr>) gs"
proof (cases "findIndex (\<lambda>g. id_g g = Some (id_o ord)) gs")
  case None
  then show ?thesis by (simp add: reorder_group_def)
next
  case (Some k)
  from findIndex_Some [OF this] have "k < length gs"
    by simp
  with Some show ?thesis
    by (simp add: reorder_group_def at_index_def map_list_update_same)
qed

lemma reorder_groups_frame:
  "map (\<lambda>g. g\<lparr>order_num_g := 0\<rparr>) (foldl reorder_group gs ords)
     = map (\<lambda>g. g\<lparr>order_num_g := 0\<rparr>) gs"
  by (induction ords arbitrary: gs) (simp_all add: reorder_group_frame)

lemma reorder_site_frame:
  "map (\<lambda>s. s\<lparr>order_num_s := 0\<rparr>) (reorder_site ss ord) = map (\<lambda>s. s\<lparr>order_num_s := 0\<rparr>) ss"
proof (cases "findIndex (\<lambda>s. id_s s = Some (id_o ord)) ss")
  case None
  then show ?thesis by (simp add: reorder_site_def)
next
  case (Some k)
  from findIndex_Some [OF this] have "k < length ss"
    by simp
  with Some show ?thesis
    by (simp add: reorder_site_def at_index_def map_list_update_same)
qed

lemma reorder_sites_frame:
  "map (\<lambda>s. s\<lparr>order_num_s := 0\<rparr>) (foldl reorder_site ss ords)
     = map (\<lambda>s. s\<lparr>order_num_s := 0\<rparr>) ss"
  by (induction ords arbitrary: ss) (simp_all add: reorder_site_frame)

lemma updateGroup_refreshes:
  assumes "fst (updateGroup now i p st) = Some g"
  shows "updated_at_g g = Some now \<and> g \<in> set (mockGroups (snd (updateGroup now i p st)))"
proof -
  from assms obtain k where k: "findIndex (\<lambda>g. id_g g = Some i) (mockGroups st) = Some k"
    by (auto simp: updateGroup_def split: option.splits)
  from findIndex_Some [OF this] have "k < length (mockGroups st)"
    by simp
  with assms k show ?thesis
    by (auto simp: updateGroup_def at_index_def patch_group_def Let_def set_update_memI)
qed

lemma updateSite_refreshes:
  assumes "fst (updateSite now i p st) = Some s"
  shows "updated_at_s s = Some now \<and> s \<in> set (mockSites (snd (updateSite now i p st)))"
proof -
  from assms obtain k where k: "findIndex (\<lambda>s. id_s s = Some i) (mockSites st) = Some k"
    by (auto simp: updateSite_def split: option.splits)
  from findIndex_Some [OF this] have "k < length (mockSites st)"
    by simp
  with assms k show ?thesis
    by (auto simp: updateSite_def at_index_def patch_site_def Let_def set_update_memI)
qed

subsection \<open>The identity invariant\<close>














subsection \<open>Reference integrity\<close>

lemma foldl_max_ge: "(a::int) \<le> foldl max a xs"
proof (induction xs arbitrary: a)
  case Nil
  then show ?case by simp
next
  case (Cons x xs)
  have "a \<le> max a x" by simp
  also have "\<dots> \<le> foldl max (max a x) xs" by (rule Cons.IH)
  finally show ?case by simp
qed

lemma next_id_pos: "0 < next_id ids"
  using foldl_max_ge [of 0 ids] by (simp add: next_id_def)

lemma importGroup_extends:
  assumes "importGroup now (G, m, s) ig = (G', m', s')"
  shows "\<exists>X. G' = G @ X"
  using assms by (auto simp: importGroup_def Let_def split: option.splits)

lemma importGroups_extends:
  "foldl (importGroup now) (G, m, s) gs = (G', m', s') \<Longrightarrow> \<exists>X. G' = G @ X"
proof (induction gs arbitrary: G m s)
  case Nil
  then show ?case by simp
next
  case (Cons g gs)
  obtain G1 m1 s1 where step: "importGroup now (G, m, s) g = (G1, m1, s1)"
    by (cases "importGroup now (G, m, s) g") auto
  with Cons.prems have "foldl (importGroup now) (G1, m1, s1) gs = (G', m', s')"
    by simp
  from Cons.IH [OF this] importGroup_extends [OF step] show ?case
    by auto
qed

lemma importGroup_map_live:
  assumes "importGroup now (G, m, s) ig = (G', m', s')" "groupMap_live G m"
  shows "groupMap_live G' m'"
proof (cases "findIndex (\<lambda>g. name_g g = name_g ig) G")
  case None
  let ?n = "next_id (map (\<lambda>g. or_zero (id_g g)) G)"
  from None assms(1) have G': "G' = G @ [ig\<lparr>id_g := Some ?n, created_at_g := Some now,
                                              updated_at_g := Some now\<rparr>]"
    and m': "m' = (if truthy (id_g ig) then m(the (id_g ig) \<mapsto> ?n) else m)"
    by (auto simp: importGroup_def Let_def)
  have "?n \<noteq> 0"
    using next_id_pos [of "map (\<lambda>g. or_zero (id_g g)) G"] by simp
  with assms(2) show ?thesis
    unfolding groupMap_live_def G' m' by (auto split: if_splits)
next
  case (Some k)
  from findIndex_Some [OF this] have k: "k < length G"
    by simp
  with Some assms(1) have G': "G' = G"
    and m': "m' = (if truthy (id_g ig) \<and> truthy (id_g (G ! k))
                   then m(the (id_g ig) \<mapsto> the (id_g (G ! k))) else m)"
    by (auto simp: importGroup_def Let_def at_index_def)
  have "v \<noteq> 0 \<and> (\<exists>g\<in>set G. id_g g = Some v)" if "truthy (id_g (G ! k))" "v = the (id_g (G ! k))" for v
    using that k by (auto simp: truthy_def split: option.splits)
  with assms(2) show ?thesis
    unfolding groupMap_live_def G' m' by (auto split: if_splits)
qed

lemma importGroups_map_live:
  "foldl (importGroup now) (G, m, s) gs = (G', m', s') \<Longrightarrow> groupMap_live G m
     \<Longrightarrow> groupMap_live G' m'"
proof (induction gs arbitrary: G m s)
  case Nil
  then show ?case by simp
next
  case (Cons g gs)
  obtain G1 m1 s1 where step: "importGroup now (G, m, s) g = (G1, m1, s1)"
    by (cases "importGroup now (G, m, s) g") auto
  with Cons.prems have "foldl (importGroup now) (G1, m1, s1) gs = (G', m', s')"
    by simp
  from Cons.IH [OF this importGroup_map_live [OF step Cons.prems(2)]] show ?case .
qed

lemma groupMap_live_empty: "groupMap_live G Map.empty"
  by (simp add: groupMap_live_def)







subsection \<open>Importing a second time\<close>

lemma importGroup_again:
  assumes "importGroup now (G, m, s) ig = (G1, m1, s1)"
  shows "importGroup now' (G1 @ Z, m, t) ig
           = (G1 @ Z, m1, t\<lparr>groups_merged := groups_merged t + 1\<rparr>)"
proof (cases "findIndex (\<lambda>g. name_g g = name_g ig) G")
  case None
  let ?n = "next_id (map (\<lambda>g. or_zero (id_g g)) G)"
  let ?new = "ig\<lparr>id_g := Some ?n, created_at_g := Some now, updated_at_g := Some now\<rparr>"
  from None assms have G1: "G1 = G @ [?new]"
    and m1: "m1 = (if truthy (id_g ig) then m(the (id_g ig) \<mapsto> ?n) else m)"
    by (auto simp: importGroup_def Let_def)
  have "findIndex (\<lambda>g. name_g g = name_g ig) (G @ ?new # Z) = Some (length G)"
    using None by (intro findIndex_append_hit) simp_all
  moreover have "at_index (G @ ?new # Z) (length G) = Some ?new"
    by (simp add: at_index_def)
  moreover have "truthy (Some ?n)"
    using next_id_pos [of "map (\<lambda>g. or_zero (id_g g)) G"] by (simp add: truthy_def)
  ultimately show ?thesis
    by (simp add: importGroup_def G1 m1)
next
  case (Some k)
  from findIndex_Some [OF this] have k: "k < length G"
    by simp
  with Some assms have G1: "G1 = G"
    and m1: "m1 = (if truthy (id_g ig) \<and> truthy (id_g (G ! k))
                   then m(the (id_g ig) \<mapsto> the (id_g (G ! k))) else m)"
    by (auto simp: importGroup_def Let_def at_index_def)
  have "findIndex (\<lambda>g. name_g g = name_g ig) (G @ Z) = Some k"
    using Some by (rule findIndex_append_Some)
  moreover have "at_index (G @ Z) k = Some (G ! k)"
    using k by (simp add: at_index_def nth_append)
  ultimately show ?thesis
    by (simp add: importGroup_def G1 m1)
qed

lemma importGroups_again:
  "foldl (importGroup now) (G, m, s) gs = (G1, m1, s1) \<Longrightarrow>
     foldl (importGroup now') (G1 @ Z, m, t) gs
       = (G1 @ Z, m1, t\<lparr>groups_merged := groups_merged t + length gs\<rparr>)"
proof (induction gs arbitrary: G m s t)
  case Nil
  then show ?case by simp
next
  case (Cons g gs)
  obtain Ga ma sa where step: "importGroup now (G, m, s) g = (Ga, ma, sa)"
    by (cases "importGroup now (G, m, s) g") auto
  with Cons.prems have rest: "foldl (importGroup now) (Ga, ma, sa) gs = (G1, m1, s1)"
    by simp
  from importGroups_extends [OF rest] obtain X where X: "G1 = Ga @ X"
    by blast
  have "importGroup now' (G1 @ Z, m, t) g
          = (G1 @ Z, ma, t\<lparr>groups_merged := groups_merged t + 1\<rparr>)"
    using importGroup_again [OF step, of now' "X @ Z" t] by (simp add: X)
  then show ?case
    using Cons.IH [OF rest, of "t\<lparr>groups_merged := groups_merged t + 1\<rparr>"] by simp
qed

lemma importSite_keys_grow:
  assumes "importSite now m (S, s) x = (S', s')"
  shows "set (map site_key S) \<subseteq> set (map site_key S')"
proof (cases "truthy (m (group_id x))")
  case False
  with assms show ?thesis
    by (simp add: importSite_def)
next
  case True
  show ?thesis
  proof (cases "findIndex (\<lambda>s. group_id s = the (m (group_id x)) \<and> url s = url x) S")
    case None
    with assms True show ?thesis
      by (auto simp: importSite_def Let_def)
  next
    case (Some k)
    from findIndex_Some [OF this] have k: "k < length S"
      by simp
    with Some assms True
    have "S' = S[k := (S ! k)\<lparr>name_s := name_s x, icon := icon x, description := description x,
                               notes_s := notes_s x, updated_at_s := Some now\<rparr>]"
      by (simp add: importSite_def at_index_def)
    with k have "map site_key S' = map site_key S"
      by (simp add: map_list_update_same site_key_def)
    then show ?thesis by simp
  qed
qed

lemma importSite_key_present:
  assumes "importSite now m (S, s) x = (S', s')" "m (group_id x) = Some v" "v \<noteq> 0"
  shows "(v, url x) \<in> set (map site_key S')"
proof (cases "findIndex (\<lambda>s. group_id s = v \<and> url s = url x) S")
  case None
  with assms show ?thesis
    by (auto simp: importSite_def Let_def truthy_def site_key_def)
next
  case (Some k)
  from findIndex_Some [OF this] have "k < length S" "site_key (S ! k) = (v, url x)"
    by (simp_all add: site_key_def)
  then have "(v, url x) \<in> set (map site_key S)"
    by (metis nth_mem nth_map length_map)
  with importSite_keys_grow [OF assms(1)] show ?thesis
    by blast
qed

lemma importSites_keys_grow:
  "foldl (importSite now m) (S, s) ss = (S', s') \<Longrightarrow>
     set (map site_key S) \<subseteq> set (map site_key S')"
proof (induction ss arbitrary: S s)
  case Nil
  then show ?case by simp
next
  case (Cons x ss)
  obtain S1 s1 where step: "importSite now m (S, s) x = (S1, s1)"
    by (cases "importSite now m (S, s) x") auto
  with Cons.prems have "foldl (importSite now m) (S1, s1) ss = (S', s')"
    by simp
  from Cons.IH [OF this] importSite_keys_grow [OF step] show ?case
    by blast
qed

lemma importSites_keys_present:
  "foldl (importSite now m) (S, s) ss = (S', s') \<Longrightarrow> x \<in> set ss \<Longrightarrow>
     m (group_id x) = Some v \<Longrightarrow> v \<noteq> 0 \<Longrightarrow> (v, url x) \<in> set (map site_key S')"
proof (induction ss arbitrary: S s)
  case Nil
  then show ?case by simp
next
  case (Cons y ss)
  obtain S1 s1 where step: "importSite now m (S, s) y = (S1, s1)"
    by (cases "importSite now m (S, s) y") auto
  with Cons.prems have rest: "foldl (importSite now m) (S1, s1) ss = (S', s')"
    by simp
  show ?case
  proof (cases "x = y")
    case True
    with importSite_key_present [OF step] Cons.prems have "(v, url x) \<in> set (map site_key S1)"
      by simp
    with importSites_keys_grow [OF rest] show ?thesis
      by blast
  next
    case False
    with Cons.prems have "x \<in> set ss"
      by simp
    from Cons.IH [OF rest this Cons.prems(3,4)] show ?thesis .
  qed
qed

lemma importSite_again:
  assumes "m (group_id x) = Some v" "v \<noteq> 0" "(v, url x) \<in> set (map site_key S)"
  shows "\<exists>S'. importSite now m (S, t) x = (S', t\<lparr>sites_updated := sites_updated t + 1\<rparr>)
              \<and> map site_key S' = map site_key S"
proof -
  from assms(3) have "\<exists>s\<in>set S. group_id s = v \<and> url s = url x"
    by (auto simp: site_key_def)
  then obtain k where k: "findIndex (\<lambda>s. group_id s = v \<and> url s = url x) S = Some k"
    using findIndex_None [of "\<lambda>s. group_id s = v \<and> url s = url x" S] by (cases "findIndex (\<lambda>s. group_id s = v \<and> url s = url x) S") auto
  from findIndex_Some [OF this] have lt: "k < length S"
    by simp
  let ?u = "(S ! k)\<lparr>name_s := name_s x, icon := icon x, description := description x,
                     notes_s := notes_s x, updated_at_s := Some now\<rparr>"
  from k lt assms(1,2)
  have "importSite now m (S, t) x = (S[k := ?u], t\<lparr>sites_updated := sites_updated t + 1\<rparr>)"
    by (simp add: importSite_def at_index_def truthy_def)
  moreover from lt have "map site_key (S[k := ?u]) = map site_key S"
    by (simp add: map_list_update_same site_key_def)
  ultimately show ?thesis
    by blast
qed

lemma importSites_again:
  "(\<And>x. x \<in> set ss \<Longrightarrow> \<exists>v. m (group_id x) = Some v \<and> v \<noteq> 0 \<and> (v, url x) \<in> set (map site_key S))
     \<Longrightarrow> \<exists>S'. foldl (importSite now m) (S, t) ss
                  = (S', t\<lparr>sites_updated := sites_updated t + length ss\<rparr>)
               \<and> map site_key S' = map site_key S"
proof (induction ss arbitrary: S t)
  case Nil
  then show ?case by simp
next
  case (Cons y ss)
  from Cons.prems [of y] obtain v where v: "m (group_id y) = Some v" "v \<noteq> 0"
    "(v, url y) \<in> set (map site_key S)"
    by auto
  from importSite_again [of m y v S now t] v obtain S1 where
    step: "importSite now m (S, t) y = (S1, t\<lparr>sites_updated := sites_updated t + 1\<rparr>)"
    and keys: "map site_key S1 = map site_key S"
    by blast
  have "\<exists>v. m (group_id x) = Some v \<and> v \<noteq> 0 \<and> (v, url x) \<in> set (map site_key S1)"
    if "x \<in> set ss" for x
    using Cons.prems [of x] that keys by simp
  from Cons.IH [OF this, of "t\<lparr>sites_updated := sites_updated t + 1\<rparr>"] obtain S' where
    "foldl (importSite now m) (S1, t\<lparr>sites_updated := sites_updated t + 1\<rparr>) ss
       = (S', t\<lparr>sites_updated := sites_updated t + 1\<rparr>
               \<lparr>sites_updated := sites_updated (t\<lparr>sites_updated := sites_updated t + 1\<rparr>) + length ss\<rparr>)"
    "map site_key S' = map site_key S1"
    by blast
  with step keys show ?case
    by simp
qed

subsection \<open>Configuration\<close>

text \<open>For a key that is not inherited, \<open>getConfig\<close> tells a stored non-empty string from
  everything else, and an empty string reads like a deleted key.\<close>

lemma getConfig_own_keys:
  assumes "\<not> List.member object_prototype_names key"
  shows "(getConfig key st = Some r) = (\<exists>v. mockConfigs st key = Some v \<and> v \<noteq> [] \<and> r = Stored v)"
    and "(getConfig key st = None) = (mockConfigs st key = None \<or> mockConfigs st key = Some [])"
    and "getConfig key (snd (setConfig key [] st)) = getConfig key (snd (deleteConfig key st))"
proof -
  have proto: "key \<noteq> ''__proto__''"
    using assms by (auto simp: object_prototype_names_def)
  show "(getConfig key st = Some r) = (\<exists>v. mockConfigs st key = Some v \<and> v \<noteq> [] \<and> r = Stored v)"
    using assms by (auto simp: getConfig_def read_config_def split: option.splits)
  show "(getConfig key st = None) = (mockConfigs st key = None \<or> mockConfigs st key = Some [])"
    using assms by (auto simp: getConfig_def read_config_def split: option.splits)
  show "getConfig key (snd (setConfig key [] st)) = getConfig key (snd (deleteConfig key st))"
    using assms proto
    by (auto simp: getConfig_def read_config_def setConfig_def deleteConfig_def assign_config_def
        split: option.splits)
qed

subsection \<open>Import of a malformed snapshot\<close>











section \<open>The claims\<close>

text \<open>
  C1 - idempotence of the import. When a snapshot is imported and then imported again,
  both times with success, and every site of the snapshot has its \<open>group_id\<close> mapped by
  the \<open>groupMap\<close> of the first import, the second import reports no created group, every
  group merged, no created site and every site updated. The \<open>groupMap\<close> of the second
  import is that of the first, so the condition reads the same on either.
\<close>

theorem importData_idempotent:
  assumes first: "importData now1 d st = (Inr (Success stats1), st1)"
      and second: "importData now2 d st1 = (Inr (Success stats2), st2)"
      and mapped: "\<forall>s\<in>set (the (sites d)). import_groupMap now1 d st (group_id s) \<noteq> None"
    shows "groups_created stats2 = 0 \<and> groups_merged stats2 = groups_total stats2
         \<and> sites_created stats2 = 0 \<and> sites_updated stats2 = sites_total stats2
         \<and> import_groupMap now2 d st1 = import_groupMap now1 d st"
proof -
  from first have "importData_try now1 d st = (Inr stats1, st1)"
    by (simp add: importData_Success)
  then obtain gs ss G m s1 S where
    gs: "groups d = Some gs" and ss: "sites d = Some ss" and
    g1: "foldl (importGroup now1)
       (mockGroups st, Map.empty,
        \<lparr>groups_total = length gs, groups_created = 0, groups_merged = 0,
         sites_total = length ss, sites_created = 0, sites_updated = 0, sites_skipped = 0\<rparr>) gs
     = (G, m, s1)" and
    t1: "foldl (importSite now1 m) (mockSites st, s1) ss = (S, stats1)" and
    st1: "mockGroups st1 = G" "mockSites st1 = S"
    by (rule importData_try_Inr)
  let ?s0 = "\<lparr>groups_total = length gs, groups_created = 0, groups_merged = 0,
         sites_total = length ss, sites_created = 0, sites_updated = 0, sites_skipped = 0\<rparr>"
  let ?sa = "?s0\<lparr>groups_merged := groups_merged ?s0 + length gs\<rparr>"
  have m: "import_groupMap now1 d st = m"
    by (simp add: import_groupMap_def gs ss g1)
  have g2: "foldl (importGroup now2) (G, Map.empty, ?s0) gs = (G, m, ?sa)"
    using importGroups_again [OF g1, of now2 "[]" ?s0] by simp
  then have m2: "import_groupMap now2 d st1 = m"
    by (simp add: import_groupMap_def gs ss st1)
  have live: "groupMap_live G m"
    using importGroups_map_live [OF g1 groupMap_live_empty] .
  have "\<exists>v. m (group_id x) = Some v \<and> v \<noteq> 0 \<and> (v, url x) \<in> set (map site_key S)"
    if x: "x \<in> set ss" for x
  proof -
    from mapped x obtain v where v: "m (group_id x) = Some v"
      by (auto simp: m ss)
    with live have "v \<noteq> 0"
      by (auto simp: groupMap_live_def)
    with importSites_keys_present [OF t1 x v] v show ?thesis
      by blast
  qed
  from importSites_again [OF this, of ss now2 ?sa] obtain S2 where
    t2: "foldl (importSite now2 m) (S, ?sa) ss
           = (S2, ?sa\<lparr>sites_updated := sites_updated ?sa + length ss\<rparr>)"
    by blast
  from second have "importData_try now2 d st1 = (Inr stats2, st2)"
    by (simp add: importData_Success)
  with gs ss st1 g2 t2 have "stats2 = ?sa\<lparr>sites_updated := sites_updated ?sa + length ss\<rparr>"
    by (auto simp: importData_try_def Let_def split: option.splits)
  with m m2 show ?thesis
    by simp
qed

theorem importData_idempotent_witness:
  "fst (importData ''t1'' snapshot_A empty_store)
     = Inr (Success \<lparr>groups_total = 1, groups_created = 1, groups_merged = 0,
                      sites_total = 1, sites_created = 1, sites_updated = 0,
                      sites_skipped = 0\<rparr>)
   \<and> fst (importData ''t2'' snapshot_A (snd (importData ''t1'' snapshot_A empty_store)))
     = Inr (Success \<lparr>groups_total = 1, groups_created = 0, groups_merged = 1,
                      sites_total = 1, sites_created = 0, sites_updated = 1,
                      sites_skipped = 0\<rparr>)
   \<and> list_all (\<lambda>s. import_groupMap ''t1'' snapshot_A empty_store (group_id s) \<noteq> None)
        (the (sites snapshot_A))
   \<and> import_groupMap ''t2'' snapshot_A (snd (importData ''t1'' snapshot_A empty_store))
       = import_groupMap ''t1'' snapshot_A empty_store"
proof -
  let ?r1 = "importData ''t1'' snapshot_A empty_store"
  let ?r2 = "importData ''t2'' snapshot_A (snd ?r1)"
  let ?s1 = "\<lparr>groups_total = 1, groups_created = 1, groups_merged = 0,
              sites_total = 1, sites_created = 1, sites_updated = 0, sites_skipped = 0\<rparr>"
  let ?s2 = "\<lparr>groups_total = 1, groups_created = 0, groups_merged = 1,
              sites_total = 1, sites_created = 0, sites_updated = 1, sites_skipped = 0\<rparr>"
  have f1: "fst ?r1 = Inr (Success ?s1)"
    by code_simp
  have f2: "fst ?r2 = Inr (Success ?s2)"
    by code_simp
  have a: "?r1 = (Inr (Success ?s1), snd ?r1)"
    using f1 by (simp add: prod_eq_iff)
  have b: "?r2 = (Inr (Success ?s2), snd ?r2)"
    using f2 by (simp add: prod_eq_iff)
  have c: "list_all (\<lambda>s. import_groupMap ''t1'' snapshot_A empty_store (group_id s) \<noteq> None)
        (the (sites snapshot_A))"
    by code_simp
  then have c': "\<forall>s\<in>set (the (sites snapshot_A)).
      import_groupMap ''t1'' snapshot_A empty_store (group_id s) \<noteq> None"
    by (simp add: list_all_iff)
  from importData_idempotent [OF a b c'] f1 f2 c show ?thesis
    by simp
qed

text \<open>
  C2 - conservation of the statistics. When \<open>importData\<close> returns \<open>success: true\<close>, the
  snapshot has its \<open>groups\<close> and \<open>sites\<close>, the totals are their lengths, created and
  merged groups add up to the groups' total, and created, updated and skipped sites add
  up to the sites' total.
\<close>

theorem importData_stats_conservation:
  assumes "importData now d st = (Inr (Success stats), st')"
  shows "\<exists>gs ss. groups d = Some gs \<and> sites d = Some ss
           \<and> groups_total stats = length gs \<and> sites_total stats = length ss
           \<and> groups_created stats + groups_merged stats = groups_total stats
           \<and> sites_created stats + sites_updated stats + sites_skipped stats
               = sites_total stats"
proof -
  from assms have "importData_try now d st = (Inr stats, st')"
    by (simp add: importData_Success)
  then obtain gs ss G m s1 S where
    gs: "groups d = Some gs" and ss: "sites d = Some ss" and
    g: "foldl (importGroup now)
       (mockGroups st, Map.empty,
        \<lparr>groups_total = length gs, groups_created = 0, groups_merged = 0,
         sites_total = length ss, sites_created = 0, sites_updated = 0, sites_skipped = 0\<rparr>) gs
     = (G, m, s1)" and
    s: "foldl (importSite now m) (mockSites st, s1) ss = (S, stats)"
    by (rule importData_try_Inr)
  from importGroups_stats [OF g] importSites_stats [OF s]
  have "groups_done stats = length gs" "sites_done stats = length ss"
    "groups_total stats = length gs" "sites_total stats = length ss"
    by (simp_all add: groups_done_def sites_done_def)
  with gs ss show ?thesis
    by (simp add: groups_done_def sites_done_def)
qed

theorem importData_stats_conservation_witness:
  "fst (importData ''t1'' snapshot_A empty_store)
     = Inr (Success \<lparr>groups_total = 1, groups_created = 1, groups_merged = 0,
                      sites_total = 1, sites_created = 1, sites_updated = 0,
                      sites_skipped = 0\<rparr>)
   \<and> (\<exists>gs ss. groups snapshot_A = Some gs \<and> sites snapshot_A = Some ss
         \<and> length gs = 1 \<and> length ss = 1)"
proof -
  let ?s = "\<lparr>groups_total = 1, groups_created = 1, groups_merged = 0,
             sites_total = 1, sites_created = 1, sites_updated = 0, sites_skipped = 0\<rparr>"
  have f: "fst (importData ''t1'' snapshot_A empty_store) = Inr (Success ?s)"
    by code_simp
  then have "importData ''t1'' snapshot_A empty_store
               = (Inr (Success ?s), snd (importData ''t1'' snapshot_A empty_store))"
    by (simp add: prod_eq_iff)
  from importData_stats_conservation [OF this] f show ?thesis
    by auto
qed


text \<open>
  C4 - the frame of an import update. When the incoming site's group resolves and a live
  site of that group has the same url, the turn of the loop changes the first such site
  only: its \<open>name\<close>, \<open>icon\<close>, \<open>description\<close>, \<open>notes\<close> and \<open>updated_at\<close> are written,
  its \<open>url\<close>, \<open>group_id\<close>, \<open>id\<close>, \<open>is_public\<close>, \<open>order_num\<close> and \<open>created_at\<close> stay, and
  so does every other live site.
\<close>

theorem importSite_match_frame:
  assumes "groupMap (group_id importSte) = Some newGroupId"
      and "newGroupId \<noteq> 0"
      and "findIndex (\<lambda>s. group_id s = newGroupId \<and> url s = url importSte) sites0 = Some i"
      and "importSite now groupMap (sites0, stats) importSte = (sites1, stats1)"
    shows "length sites1 = length sites0
         \<and> (\<forall>j<length sites0. j \<noteq> i \<longrightarrow> sites1 ! j = sites0 ! j)
         \<and> i < length sites0
         \<and> url (sites1 ! i) = url (sites0 ! i)
         \<and> group_id (sites1 ! i) = group_id (sites0 ! i)
         \<and> id_s (sites1 ! i) = id_s (sites0 ! i)
         \<and> is_public_s (sites1 ! i) = is_public_s (sites0 ! i)
         \<and> order_num_s (sites1 ! i) = order_num_s (sites0 ! i)
         \<and> created_at_s (sites1 ! i) = created_at_s (sites0 ! i)
         \<and> name_s (sites1 ! i) = name_s importSte
         \<and> icon (sites1 ! i) = icon importSte
         \<and> description (sites1 ! i) = description importSte
         \<and> notes_s (sites1 ! i) = notes_s importSte
         \<and> updated_at_s (sites1 ! i) = Some now
         \<and> sites_updated stats1 = sites_updated stats + 1"
proof -
  from assms(3) have i: "i < length sites0"
    by (simp add: findIndex_Some)
  from assms i have eq: "sites1 = sites0[i := (sites0 ! i)\<lparr>name_s := name_s importSte,
                                         icon := icon importSte,
                                         description := description importSte,
                                         notes_s := notes_s importSte,
                                         updated_at_s := Some now\<rparr>]"
    and st: "stats1 = stats\<lparr>sites_updated := sites_updated stats + 1\<rparr>"
    by (simp_all add: importSite_def truthy_def at_index_def)
  show ?thesis
    using i by (simp add: eq st)
qed

theorem importSite_match_frame_witness:
  "[1 \<mapsto> 1] (group_id (x_site\<lparr>name_s := ''Y''\<rparr>)) = Some (1::int)
   \<and> findIndex (\<lambda>s. group_id s = 1 \<and> url s = url (x_site\<lparr>name_s := ''Y''\<rparr>)) [x_site, x_site]
       = Some 0
   \<and> length (fst (importSite ''t2'' [1 \<mapsto> 1] ([x_site, x_site], zero_stats)
                 (x_site\<lparr>name_s := ''Y''\<rparr>))) = 2
   \<and> fst (importSite ''t2'' [1 \<mapsto> 1] ([x_site, x_site], zero_stats)
            (x_site\<lparr>name_s := ''Y''\<rparr>)) ! 1 = x_site
   \<and> name_s (fst (importSite ''t2'' [1 \<mapsto> 1] ([x_site, x_site], zero_stats)
                 (x_site\<lparr>name_s := ''Y''\<rparr>)) ! 0) = ''Y''
   \<and> url (fst (importSite ''t2'' [1 \<mapsto> 1] ([x_site, x_site], zero_stats)
                 (x_site\<lparr>name_s := ''Y''\<rparr>)) ! 0) = ''http://x''
   \<and> id_s (fst (importSite ''t2'' [1 \<mapsto> 1] ([x_site, x_site], zero_stats)
                 (x_site\<lparr>name_s := ''Y''\<rparr>)) ! 0) = Some 1
   \<and> updated_at_s (fst (importSite ''t2'' [1 \<mapsto> 1] ([x_site, x_site], zero_stats)
                 (x_site\<lparr>name_s := ''Y''\<rparr>)) ! 0) = Some ''t2''"
proof -
  let ?in = "x_site\<lparr>name_s := ''Y''\<rparr>"
  let ?r = "importSite ''t2'' [1 \<mapsto> 1] ([x_site, x_site], zero_stats) ?in"
  have a: "[1 \<mapsto> 1] (group_id ?in) = Some (1::int)"
    by (simp add: x_site_def)
  have b: "(1::int) \<noteq> 0"
    by simp
  have c: "findIndex (\<lambda>s. group_id s = 1 \<and> url s = url ?in) [x_site, x_site] = Some 0"
    by (simp add: x_site_def)
  have d: "?r = (fst ?r, snd ?r)"
    by simp
  have e: "url x_site = ''http://x''" "id_s x_site = Some 1"
    by (simp_all add: x_site_def)
  from importSite_match_frame [OF a b c d] a c e show ?thesis
    by simp
qed




text \<open>
  C6 - the id under \<open>updateGroup\<close> and \<open>updateSite\<close>. Both spread the partial update
  over the existing record, so the record keeps its id whenever the partial update
  supplies none (the ids of the whole collection stay as they were), and takes the
  supplied id otherwise: the record returned carries the supplied id if there is one
  and the id it was looked up by if not.
\<close>

theorem update_keeps_id_unless_supplied:
  "(p_id_g p = None \<longrightarrow>
      map id_g (mockGroups (snd (updateGroup now i p st))) = map id_g (mockGroups st))
   \<and> (p_id_s q = None \<longrightarrow>
      map id_s (mockSites (snd (updateSite now i q st))) = map id_s (mockSites st))
   \<and> (\<forall>g. fst (updateGroup now i p st) = Some g \<longrightarrow> id_g g = spread_opt (Some i) (p_id_g p))
   \<and> (\<forall>s. fst (updateSite now i q st) = Some s \<longrightarrow> id_s s = spread_opt (Some i) (p_id_s q))"
proof -
  have "id_g g = spread_opt (Some i) (p_id_g p)" if "fst (updateGroup now i p st) = Some g" for g
    using that updateGroup_returned_id [of now i p st g "snd (updateGroup now i p st)"]
    by (simp add: prod_eq_iff)
  moreover
  have "id_s s = spread_opt (Some i) (p_id_s q)" if "fst (updateSite now i q st) = Some s" for s
    using that updateSite_returned_id [of now i q st s "snd (updateSite now i q st)"]
    by (simp add: prod_eq_iff)
  ultimately show ?thesis
    using updateGroup_ids [of p now i st] updateSite_ids [of q now i st] by blast
qed

theorem update_keeps_id_unless_supplied_witness:
  "p_id_g (no_group_partial\<lparr>p_name_g := Some ''Ops''\<rparr>) = None
   \<and> p_id_s (no_site_partial\<lparr>p_url := Some ''http://y''\<rparr>) = None
   \<and> map name_g (mockGroups (snd (updateGroup ''t1'' 1
         (no_group_partial\<lparr>p_name_g := Some ''Ops''\<rparr>) dev_store))) = [''Ops'']
   \<and> map id_g (mockGroups (snd (updateGroup ''t1'' 1
         (no_group_partial\<lparr>p_name_g := Some ''Ops''\<rparr>) dev_store))) = [Some 1]
   \<and> map id_s (mockSites (snd (updateSite ''t1'' 1
         (no_site_partial\<lparr>p_url := Some ''http://y''\<rparr>) dev_store))) = [Some 1]
   \<and> fst (updateGroup ''t1'' 1 (no_group_partial\<lparr>p_name_g := Some ''Ops''\<rparr>) dev_store) \<noteq> None
   \<and> fst (updateSite ''t1'' 1 (no_site_partial\<lparr>p_url := Some ''http://y''\<rparr>) dev_store) \<noteq> None"
proof -
  let ?p = "no_group_partial\<lparr>p_name_g := Some ''Ops''\<rparr>"
  let ?q = "no_site_partial\<lparr>p_url := Some ''http://y''\<rparr>"
  have a: "p_id_g ?p = None" "p_id_s ?q = None"
    by (simp_all add: no_group_partial_def no_site_partial_def)
  have b: "map id_g (mockGroups dev_store) = [Some 1]" "map id_s (mockSites dev_store) = [Some 1]"
    by (simp_all add: dev_store_def dev_group_def x_site_def)
  have c: "map name_g (mockGroups (snd (updateGroup ''t1'' 1 ?p dev_store))) = [''Ops'']"
    "fst (updateGroup ''t1'' 1 ?p dev_store) \<noteq> None"
    "fst (updateSite ''t1'' 1 ?q dev_store) \<noteq> None"
    by code_simp+
  from update_keeps_id_unless_supplied [of ?p "''t1''" 1 dev_store ?q] a b c show ?thesis
    by simp
qed

text \<open>
  The claim as stated fails: a partial update that supplies an id changes the id of an
  existing group, and of an existing site.
\<close>

theorem update_overwrites_supplied_id:
  "map id_g (mockGroups dev_store) = [Some 1]
   \<and> map id_g (mockGroups (snd (updateGroup ''t1'' 1 (no_group_partial\<lparr>p_id_g := Some 2\<rparr>)
        dev_store))) = [Some 2]
   \<and> map id_s (mockSites dev_store) = [Some 1]
   \<and> map id_s (mockSites (snd (updateSite ''t1'' 1 (no_site_partial\<lparr>p_id_s := Some 2\<rparr>)
        dev_store))) = [Some 2]"
  by code_simp

text \<open>
  C7 - every mutation refreshes \<open>updated_at\<close>, the batch reorders included. The code
  does not do this in \<open>updateGroupOrder\<close> and \<open>updateSiteOrder\<close>. On a store whose group
  and site were last updated at \<open>t0\<close>, a reorder sets their \<open>order_num\<close> to 5 and
  leaves \<open>updated_at\<close> at \<open>t0\<close>, while \<open>updateGroup\<close> and \<open>updateSite\<close>, asked at \<open>t1\<close>
  for the same change of \<open>order_num\<close>, set \<open>updated_at\<close> to \<open>t1\<close>. In general a reorder
  writes nothing but \<open>order_num\<close> (\<open>reorder_groups_frame\<close>, \<open>reorder_sites_frame\<close>), and
  the two updates always write the time of the call (\<open>updateGroup_refreshes\<close>,
  \<open>updateSite_refreshes\<close>).
\<close>

theorem reorder_keeps_updated_at:
  "map order_num_g (mockGroups dev_store) = [0]
   \<and> map updated_at_g (mockGroups dev_store) = [Some ''t0'']
   \<and> map order_num_g (mockGroups (snd (updateGroupOrder [\<lparr>id_o = 1, order_num_o = 5\<rparr>] dev_store)))
       = [5]
   \<and> map updated_at_g (mockGroups (snd (updateGroupOrder [\<lparr>id_o = 1, order_num_o = 5\<rparr>] dev_store)))
       = [Some ''t0'']
   \<and> map updated_at_g (mockGroups (snd (updateGroup ''t1'' 1
         (no_group_partial\<lparr>p_order_num_g := Some 5\<rparr>) dev_store))) = [Some ''t1'']
   \<and> map order_num_s (mockSites dev_store) = [0]
   \<and> map updated_at_s (mockSites dev_store) = [Some ''t0'']
   \<and> map order_num_s (mockSites (snd (updateSiteOrder [\<lparr>id_o = 1, order_num_o = 5\<rparr>] dev_store)))
       = [5]
   \<and> map updated_at_s (mockSites (snd (updateSiteOrder [\<lparr>id_o = 1, order_num_o = 5\<rparr>] dev_store)))
       = [Some ''t0'']
   \<and> map updated_at_s (mockSites (snd (updateSite ''t1'' 1
         (no_site_partial\<lparr>p_order_num_s := Some 5\<rparr>) dev_store))) = [Some ''t1'']"
  by code_simp




text \<open>
  C9 - visibility. Without authentication \<open>getGroups\<close> returns exactly the public groups
  and \<open>getSites\<close> exactly the public sites whose \<open>group_id\<close> is the id of a public group;
  with authentication both return everything. A \<open>groupId\<close> argument other than \<open>0\<close> then
  keeps that group's sites. \<open>getGroupsWithSites\<close> lists the groups of \<open>getGroups\<close>, each
  with the sites of \<open>getSites\<close> that carry its id, and without authentication the sites
  it lists are exactly the visible ones.
\<close>

theorem visibility_filter:
  "getGroups False st = filter visible_group (mockGroups st)
   \<and> getGroups True st = mockGroups st
   \<and> getSites False None st = filter (visible_site st) (mockSites st)
   \<and> getSites True None st = mockSites st
   \<and> getSites auth (Some k) st =
       (if k = 0 then getSites auth None st
        else filter (\<lambda>s. group_id s = k) (getSites auth None st))
   \<and> map group_of (getGroupsWithSites auth st) = getGroups auth st
   \<and> map sites_of (getGroupsWithSites auth st) =
       map (\<lambda>g. filter (\<lambda>s. Some (group_id s) = id_g g) (getSites auth None st))
         (getGroups auth st)
   \<and> (\<Union>e\<in>set (getGroupsWithSites False st). set (sites_of e))
       = set (filter (visible_site st) (mockSites st))"
proof -
  have a: "getGroups True st = mockGroups st"
    by (simp add: getGroups_def)
  have b: "getSites True None st = mockSites st"
    by (simp add: getSites_def truthy_def)
  have c: "(\<Union>e\<in>set (getGroupsWithSites False st). set (sites_of e))
       = set (filter (visible_site st) (mockSites st))"
    using getGroupsWithSites_guest_union [of st] by (simp only: getSites_guest_all)
  show ?thesis
    using a b c getGroups_guest [of st] getSites_guest_all [of st] getSites_groupId [of auth k st]
      getGroupsWithSites_groups [of auth st] getGroupsWithSites_sites [of auth st]
    by blast
qed

text \<open>
  C10 - \<open>getConfig\<close> conflates an absent key with an empty value: it returns the stored
  value only when that is a non-empty string, and \<open>null\<close> both for an absent key and for
  the empty string. The code does this for every key but the names of the members of
  \<open>Object.prototype\<close> (\<open>getConfig_own_keys\<close>). For such a name, here \<open>constructor\<close>, with
  nothing stored under it, \<open>getConfig\<close> returns the inherited member, which is neither
  \<open>null\<close> nor a string; once the empty string is stored under it \<open>getConfig\<close> returns
  \<open>null\<close>, so the caller does tell the two apart; and \<open>deleteConfig\<close> reports the absent
  key as deleted. A string assigned to the key \<open>__proto__\<close> is not stored at all.
\<close>

theorem getConfig_reads_inherited_member:
  "mockConfigs empty_store ''constructor'' = None
   \<and> getConfig ''constructor'' empty_store = Some (Inherited ''constructor'')
   \<and> getConfig ''constructor'' (snd (setConfig ''constructor'' [] empty_store)) = None
   \<and> getConfig ''constructor'' (snd (deleteConfig ''constructor'' empty_store))
       = Some (Inherited ''constructor'')
   \<and> fst (deleteConfig ''constructor'' empty_store) = True
   \<and> getConfig ''__proto__'' (snd (setConfig ''__proto__'' ''x'' empty_store))
       = Some (Inherited ''__proto__'')"
  by (simp add: getConfig_def setConfig_def deleteConfig_def read_config_def assign_config_def
      object_prototype_names_def empty_store_def)

end
